theory Spec2Isabelle
  imports Main "HOL-Library.Sublist"
begin

section \<open>The request helper of the thirdweb SDK: \<open>getClientFetch\<close>\<close>

text \<open>
  The module decorates outgoing HTTP requests: it classifies the target URL
  (\<open>isThirdwebUrl\<close>, memoised in \<open>IS_THIRDWEB_URL_CACHE\<close>), attaches credential,
  ecosystem and platform headers to first-party requests (\<open>fetchWithHeaders\<close>,
  \<open>getPlatformHeaders\<close>, \<open>parseOs\<close>) and arms a timer that aborts the request.

  Strings are lists of ASCII characters. What the module reads from its surroundings
  (the URL parser of the platform, \<open>process.env.NODE_ENV\<close>, the globals
  \<open>TW_AUTH_TOKEN\<close>, \<open>navigator\<close> and \<open>Application\<close>, the imported
  \<open>detectOS\<close>, \<open>detectPlatform\<close> and \<open>version\<close>) is a field of the record
  \<open>environment\<close>; what it mutates (the cache, the memo \<open>previousPlatform\<close>, the
  timers of the event loop) is passed in and returned.
\<close>

subsection \<open>Strings of the platform\<close>

text \<open>\<open>String.prototype.startsWith\<close> and \<open>endsWith\<close>.\<close>

definition startsWith :: "string \<Rightarrow> string \<Rightarrow> bool" where
  "startsWith s p = (take (length p) s = p)"

definition endsWith :: "string \<Rightarrow> string \<Rightarrow> bool" where
  "endsWith s d = (length d \<le> length s \<and> drop (length s - length d) s = d)"

text \<open>\<open>String.prototype.toLowerCase\<close> on ASCII: the letters \<open>A\<close> to \<open>Z\<close> move by 32.\<close>

definition toLowerCase_char :: "char \<Rightarrow> char" where
  "toLowerCase_char c =
     (let n = (of_char c :: nat) in if 65 \<le> n \<and> n \<le> 90 then char_of (n + 32) else c)"

definition toLowerCase :: "string \<Rightarrow> string" where
  "toLowerCase s = map toLowerCase_char s"

text \<open>
  The class \<open>\s\<close> of a regular expression, on ASCII: tab, line feed, vertical tab,
  form feed, carriage return and space.
\<close>

definition is_whitespace :: "char \<Rightarrow> bool" where
  "is_whitespace c = (of_char c \<in> {9, 10, 11, 12, 13, 32 :: nat})"

text \<open>\<open>s.replace(/\s/gi, "_")\<close>: the flag \<open>g\<close> replaces every match, and a match of
  \<open>\s\<close> is one character.\<close>

definition replace_whitespace :: "string \<Rightarrow> string" where
  "replace_whitespace s = map (\<lambda>c. if is_whitespace c then CHR ''_'' else c) s"

text \<open>Truthiness of a string that may be \<open>undefined\<close> or \<open>null\<close>: the empty string is
  falsy as well.\<close>

fun truthy :: "string option \<Rightarrow> bool" where
  "truthy None = False"
| "truthy (Some s) = (s \<noteq> [])"

subsection \<open>The cache \<open>LruMap\<close>\<close>

text \<open>
  Modelled from the spec: the class \<open>LruMap\<close>, which the module imports from
  \<open>./caching/lru.js\<close>. The spec describes it as a bounded mapping from a string to a
  value, of fixed capacity, with eviction of the least-recently-used entry when full;
  insertion beyond capacity evicts exactly one least-recently-used entry.

  The entries are kept in order of use, the most recently used first: a successful
  \<open>get\<close> and every \<open>set\<close> move the entry to the front, and a \<open>set\<close> that
  makes the map larger than \<open>maxSize\<close> drops the entry at the back.
\<close>

record 'v LruMap =
  maxSize :: nat
  entries :: "(string \<times> 'v) list"

definition LruMap_new :: "nat \<Rightarrow> 'v LruMap" where
  "LruMap_new n = \<lparr>maxSize = n, entries = []\<rparr>"

definition LruMap_size :: "'v LruMap \<Rightarrow> nat" where
  "LruMap_size m = length (entries m)"

definition LruMap_keys :: "'v LruMap \<Rightarrow> string list" where
  "LruMap_keys m = map fst (entries m)"

definition LruMap_has :: "'v LruMap \<Rightarrow> string \<Rightarrow> bool" where
  "LruMap_has m k = (map_of (entries m) k \<noteq> None)"

definition touch :: "string \<Rightarrow> 'v \<Rightarrow> (string \<times> 'v) list \<Rightarrow> (string \<times> 'v) list" where
  "touch k v es = (k, v) # filter (\<lambda>e. fst e \<noteq> k) es"

definition LruMap_get :: "'v LruMap \<Rightarrow> string \<Rightarrow> 'v option \<times> 'v LruMap" where
  "LruMap_get m k =
     (case map_of (entries m) k of
        None \<Rightarrow> (None, m)
      | Some v \<Rightarrow> (Some v, m\<lparr>entries := touch k v (entries m)\<rparr>))"

definition LruMap_set :: "'v LruMap \<Rightarrow> string \<Rightarrow> 'v \<Rightarrow> 'v LruMap" where
  "LruMap_set m k v =
     (let es = touch k v (entries m)
      in m\<lparr>entries := (if maxSize m < length es then butlast es else es)\<rparr>)"

subsection \<open>The surroundings of the module\<close>

datatype exception = TypeError | ReferenceError

text \<open>Of the object \<open>new URL(url)\<close> the module reads \<open>hostname\<close> only.\<close>

record URL =
  hostname :: string

text \<open>A value found under a key of \<open>globalThis\<close>: a string, or anything else.\<close>

datatype js_value = JSString string | JSOther

text \<open>A number of JavaScript, as far as a duration in milliseconds needs it: an integer
  or \<open>NaN\<close>. The falsy numbers are zero and \<open>NaN\<close>.\<close>

datatype js_number = Num int | NaN

fun truthy_number :: "js_number \<Rightarrow> bool" where
  "truthy_number (Num n) = (n \<noteq> 0)"
| "truthy_number NaN = False"

record environment =
  new_URL :: "string \<Rightarrow> exception + URL"
    \<comment> \<open>the constructor \<open>URL\<close>; it throws \<open>TypeError\<close> on a malformed URL\<close>
  NODE_ENV :: "exception + string option"
    \<comment> \<open>reading \<open>process.env.NODE_ENV\<close>: it throws where \<open>process\<close> is not declared,
        and is \<open>undefined\<close> where the variable is not set\<close>
  TW_AUTH_TOKEN :: "js_value option"
    \<comment> \<open>\<open>None\<close>: the key is not in \<open>globalThis\<close>\<close>
  navigator :: "string option"
    \<comment> \<open>\<open>navigator.userAgent\<close>, where \<open>navigator\<close> is defined\<close>
  Application :: "string option option"
    \<comment> \<open>\<open>globalThis.Application.applicationId\<close>, where the key \<open>Application\<close> exists\<close>
  detectOS :: "string \<Rightarrow> string option"
  detectPlatform :: string
  version :: string
  clamped_delay :: "js_number \<Rightarrow> nat"
    \<comment> \<open>the delay \<open>setTimeout\<close> uses for a number outside 1 to 2147483647, where the
        platforms differ (a browser clamps to 0 and wraps, Node uses 1)\<close>

subsection \<open>\<open>isThirdwebUrl\<close> and \<open>isPayUrl\<close>\<close>

definition THIRDWEB_DOMAINS :: "string list" where
  "THIRDWEB_DOMAINS = [''.thirdweb.com'', ''.ipfscdn.io'', ''.thirdweb.dev'', ''.thirdweb-dev.com'']"

definition IS_THIRDWEB_URL_CACHE :: "bool LruMap" where
  "IS_THIRDWEB_URL_CACHE = LruMap_new 4096"

text \<open>
  The function returns its verdict and the cache as it leaves it. The two handlers
  \<open>catch\<close> are the branches \<open>Inl\<close>: the outer one caches and returns \<open>false\<close>, the
  inner one (around the read of \<open>NODE_ENV\<close>) does nothing and falls through to the
  suffix test. After \<open>has\<close> the \<open>get\<close> always finds the entry; a miss there would
  give \<open>undefined\<close>, which is falsy.
\<close>

definition isThirdwebUrl :: "environment \<Rightarrow> bool LruMap \<Rightarrow> string \<Rightarrow> bool \<times> bool LruMap" where
  "isThirdwebUrl env cache url =
     (if LruMap_has cache url then
        (case LruMap_get cache url of
           (Some v, cache') \<Rightarrow> (v, cache')
         | (None, cache') \<Rightarrow> (False, cache'))
      else
        (case new_URL env url of
           Inl e \<Rightarrow> (False, LruMap_set cache url False)
         | Inr u \<Rightarrow>
             (let development =
                    (case NODE_ENV env of
                       Inl e \<Rightarrow> False
                     | Inr mode \<Rightarrow> mode = Some ''development'' \<or> mode = Some ''test'')
              in if development \<and> hostname u = ''localhost''
                 then (True, LruMap_set cache url True)
                 else (let is = list_ex (\<lambda>domain. endsWith (hostname u) domain) THIRDWEB_DOMAINS
                       in (is, LruMap_set cache url is)))))"

definition isPayUrl :: "environment \<Rightarrow> string \<Rightarrow> bool" where
  "isPayUrl env url =
     (case new_URL env url of
        Inl e \<Rightarrow> False
      | Inr u \<Rightarrow> startsWith (hostname u) ''pay.'')"

subsection \<open>\<open>parseOs\<close>, \<open>getPlatformHeaders\<close> and \<open>getTWAuthToken\<close>\<close>

definition parseOs :: "string \<Rightarrow> string" where
  "parseOs os =
     (let osLowerCased = toLowerCase os
      in if startsWith osLowerCased ''win'' then ''win''
         else if os = ''Mac OS'' then ''mac''
         else if os = ''iOS'' then ''ios''
         else if os = ''Android OS'' then ''android''
         else replace_whitespace osLowerCased)"

definition SDK_NAME :: string where
  "SDK_NAME = ''unified-sdk''"

text \<open>
  The memo \<open>previousPlatform\<close> is passed in and returned. An array is truthy even when
  empty, so \<open>if (previousPlatform)\<close> asks whether the memo was written. The tests
  \<open>os ? \<dots>\<close> and \<open>bundleId ? \<dots>\<close> are truthiness tests of strings.
\<close>

definition getPlatformHeaders ::
  "environment \<Rightarrow> (string \<times> string) list option
     \<Rightarrow> (string \<times> string) list \<times> (string \<times> string) list option" where
  "getPlatformHeaders env previousPlatform =
     (case previousPlatform of
        Some p \<Rightarrow> (p, Some p)
      | None \<Rightarrow>
          (let os = (case navigator env of None \<Rightarrow> None | Some userAgent \<Rightarrow> detectOS env userAgent);
               bundleId = (case Application env of None \<Rightarrow> None | Some applicationId \<Rightarrow> applicationId);
               p = [(''x-sdk-platform'', detectPlatform env),
                    (''x-sdk-version'', version env),
                    (''x-sdk-os'', (case os of
                                      Some s \<Rightarrow> if s \<noteq> [] then parseOs s else ''unknown''
                                    | None \<Rightarrow> ''unknown'')),
                    (''x-sdk-name'', SDK_NAME)]
                   @ (case bundleId of
                        Some b \<Rightarrow> if b \<noteq> [] then [(''x-bundle-id'', b)] else []
                      | None \<Rightarrow> [])
           in (p, Some p)))"

definition getTWAuthToken :: "environment \<Rightarrow> string option" where
  "getTWAuthToken env =
     (case TW_AUTH_TOKEN env of
        Some (JSString s) \<Rightarrow> Some s
      | _ \<Rightarrow> None)"

subsection \<open>Headers\<close>

text \<open>
  A \<open>Headers\<close> object maps a header name, in lower case, to its value, and
  \<open>new Headers(h)\<close> copies a \<open>Headers\<close> object. The method \<open>set\<close> is the one
  of the Fetch standard: it normalises the value (it strips the leading and trailing
  HTTP whitespace: tab, line feed, carriage return, space); it throws \<open>TypeError\<close>
  unless the name is a header name (a non-empty token) and the normalised value is a
  header value (no NUL, line feed or carriage return, no leading or trailing tab or
  space); and it stores the normalised value under the name in lower case, in place of
  any value the name had. A character is at most 255, so the conversion of a string to
  a byte string, which \<open>set\<close> makes first, does not fail.
\<close>

type_synonym Headers = "string \<rightharpoonup> string"

definition is_http_whitespace :: "char \<Rightarrow> bool" where
  "is_http_whitespace c = (of_char c \<in> {9, 10, 13, 32 :: nat})"

definition normalize_value :: "string \<Rightarrow> string" where
  "normalize_value v = rev (dropWhile is_http_whitespace (rev (dropWhile is_http_whitespace v)))"

definition is_tchar :: "char \<Rightarrow> bool" where
  "is_tchar c =
     (let n = (of_char c :: nat)
      in (48 \<le> n \<and> n \<le> 57) \<or> (65 \<le> n \<and> n \<le> 90) \<or> (97 \<le> n \<and> n \<le> 122)
         \<or> n \<in> {33, 35, 36, 37, 38, 39, 42, 43, 45, 46, 94, 95, 96, 124, 126})"

definition is_header_name :: "string \<Rightarrow> bool" where
  "is_header_name name = (name \<noteq> [] \<and> list_all is_tchar name)"

definition is_header_value :: "string \<Rightarrow> bool" where
  "is_header_value v =
     (list_all (\<lambda>c. of_char c \<notin> {0, 10, 13 :: nat}) v
      \<and> (v = [] \<or> (of_char (hd v) \<notin> {9, 32 :: nat} \<and> of_char (last v) \<notin> {9, 32 :: nat})))"

definition Headers_set :: "Headers \<Rightarrow> string \<Rightarrow> string \<Rightarrow> exception + Headers" where
  "Headers_set h name v =
     (let v' = normalize_value v
      in if is_header_name name \<and> is_header_value v'
         then Inr (h(toLowerCase name \<mapsto> v'))
         else Inl TypeError)"

subsection \<open>Timers, controllers and the transport\<close>

definition DEFAULT_REQUEST_TIMEOUT :: js_number where
  "DEFAULT_REQUEST_TIMEOUT = Num 60000"

text \<open>
  Modelled from the spec: the types \<open>ThirdwebClient\<close> and \<open>Ecosystem\<close>, declared
  outside the module. The spec gives a client the optional string fields
  \<open>secretKey\<close> and \<open>clientId\<close>, and an ecosystem the string field \<open>id\<close> and the
  optional string field \<open>partnerId\<close>.
\<close>

record ThirdwebClient =
  secretKey :: "string option"
  clientId :: "string option"

record Ecosystem =
  id' :: string
  partnerId :: "string option"

text \<open>The argument \<open>init\<close>: of the fields of \<open>RequestInit\<close> the model follows
  \<open>method\<close> and \<open>body\<close> (here \<open>request_method\<close>, \<open>request_body\<close>) and
  \<open>headers\<close>, and with them \<open>requestTimeoutMs\<close>. The caller's headers are a
  \<open>Headers\<close> object.\<close>

record RequestInit =
  request_method :: "string option"
  request_body :: "string option"
  headers :: "Headers option"
  requestTimeoutMs :: "js_number option"

text \<open>
  What the module holds and what it changes in the event loop: the cache, the memo of
  the platform headers, the clock in milliseconds, the pending timers (handle, the
  time at which the timer is due, the controller its callback aborts), and the
  controllers created and aborted so far.
\<close>

record state =
  cache :: "bool LruMap"
  previousPlatform :: "(string \<times> string) list option"
  now :: nat
  next_timer :: nat
  pending :: "(nat \<times> nat \<times> nat) list"
  next_controller :: nat
  aborted :: "nat list"

text \<open>The delay of \<open>setTimeout(callback, ms)\<close>: \<open>ms\<close> milliseconds for a number from 1
  to 2147483647, and what the platform makes of any other number.\<close>

definition delay_of :: "environment \<Rightarrow> js_number \<Rightarrow> nat" where
  "delay_of env ms =
     (case ms of
        Num n \<Rightarrow> if 1 \<le> n \<and> n \<le> 2147483647 then nat n else clamped_delay env ms
      | NaN \<Rightarrow> clamped_delay env ms)"

definition setTimeout :: "environment \<Rightarrow> state \<Rightarrow> nat \<Rightarrow> js_number \<Rightarrow> nat \<times> state" where
  "setTimeout env st controller ms =
     (let h = next_timer st
      in (h, st\<lparr>next_timer := Suc h,
               pending := (h, now st + delay_of env ms, controller) # pending st\<rparr>))"

definition clearTimeout :: "state \<Rightarrow> nat \<Rightarrow> state" where
  "clearTimeout st h = st\<lparr>pending := filter (\<lambda>t. fst t \<noteq> h) (pending st)\<rparr>"

definition new_AbortController :: "state \<Rightarrow> nat \<times> state" where
  "new_AbortController st = (next_controller st, st\<lparr>next_controller := Suc (next_controller st)\<rparr>)"

text \<open>The event loop runs the callback of a pending timer, \<open>controller?.abort()\<close>, and
  the timer is spent; a timer that is not pending never runs.\<close>

definition fire_timer :: "state \<Rightarrow> nat \<Rightarrow> state" where
  "fire_timer st h =
     (case map_of (pending st) h of
        None \<Rightarrow> st
      | Some (due, controller) \<Rightarrow>
          st\<lparr>pending := filter (\<lambda>t. fst t \<noteq> h) (pending st),
             aborted := controller # aborted st\<rparr>)"

text \<open>Time passes until \<open>t\<close>: every pending timer that was due before \<open>t\<close> has run
  its callback. A timer due at \<open>t\<close> itself is still pending.\<close>

definition advance :: "state \<Rightarrow> nat \<Rightarrow> state" where
  "advance st t =
     st\<lparr>now := t,
        pending := filter (\<lambda>(h, due, controller). \<not> due < t) (pending st),
        aborted := map (\<lambda>(h, due, controller). controller)
                     (filter (\<lambda>(h, due, controller). due < t) (pending st)) @ aborted st\<rparr>"

text \<open>The call \<open>fetch(url, {...restInit, headers, signal})\<close> as the transport sees it.\<close>

record fetch_call =
  call_url :: string
  call_method :: "string option"
  call_body :: "string option"
  call_headers :: "Headers option"
  call_signal :: "nat option"

text \<open>
  How a promise settles, and what the transport does with a call when nothing aborts
  it: it settles the promise so many milliseconds after the call, or it stays silent
  for ever. When the transport settles in the very millisecond in which the timer of
  the request is due, the platform decides which of the two runs first; the flag of
  \<open>Settles\<close> says whether the transport does.
\<close>

datatype settled = Fulfilled string | Rejected string

datatype transport = Settles nat bool settled | Silent

text \<open>
  Waiting for the promise of \<open>fetch\<close>, with the timer the wrapper has armed for it, if
  any. Time passes until the first of two events. Either the transport settles, and
  the promise settles as the transport says. Or the timer is due: its callback aborts
  the controller whose signal the call carries, and the promise rejects with
  \<open>AbortError\<close>. With a silent transport and no timer the promise stays pending for
  ever, which is the result \<open>None\<close>.
\<close>

definition await_fetch :: "state \<Rightarrow> nat option \<Rightarrow> transport \<Rightarrow> settled option \<times> state" where
  "await_fetch st abortTimeout net =
     (let timer = (case abortTimeout of
                     None \<Rightarrow> None
                   | Some h \<Rightarrow> map_option (\<lambda>(due, controller). (h, due)) (map_of (pending st) h))
      in case net of
           Silent \<Rightarrow>
             (case timer of
                None \<Rightarrow> (None, st)
              | Some (h, due) \<Rightarrow> (Some (Rejected ''AbortError''), fire_timer (advance st due) h))
         | Settles t first r \<Rightarrow>
             (case timer of
                None \<Rightarrow> (Some r, advance st (now st + t))
              | Some (h, due) \<Rightarrow>
                  if now st + t < due \<or> (now st + t = due \<and> first)
                  then (Some r, advance st (now st + t))
                  else (Some (Rejected ''AbortError''), fire_timer (advance st due) h)))"

subsection \<open>\<open>fetchWithHeaders\<close>\<close>

text \<open>
  The headers of the request, in the three steps of the source; an exception of
  \<open>set\<close> ends the step. The credential (lines 34 to 43): one header at most, the
  first whose test holds. Where the source reads a string under a truthiness test, the
  model reads it with \<open>the\<close> under the same test.
\<close>

definition set_credential ::
  "environment \<Rightarrow> ThirdwebClient \<Rightarrow> string \<Rightarrow> Headers \<Rightarrow> exception + Headers" where
  "set_credential env client url headers1 =
     (let authToken = getTWAuthToken env
      in if truthy authToken \<and> \<not> isPayUrl env url then
           Headers_set headers1 ''authorization'' (''Bearer '' @ the authToken)
         else if truthy (secretKey client) then
           Headers_set headers1 ''x-secret-key'' (the (secretKey client))
         else if truthy (clientId client) then
           Headers_set headers1 ''x-client-id'' (the (clientId client))
         else Inr headers1)"

text \<open>The ecosystem (lines 45 to 50).\<close>

definition set_ecosystem :: "Ecosystem option \<Rightarrow> Headers \<Rightarrow> exception + Headers" where
  "set_ecosystem ecosystem headers2 =
     (case ecosystem of
        None \<Rightarrow> Inr headers2
      | Some e \<Rightarrow>
          (case Headers_set headers2 ''x-ecosystem-id'' (id' e) of
             Inl x \<Rightarrow> Inl x
           | Inr h \<Rightarrow>
               if truthy (partnerId e)
               then Headers_set h ''x-ecosystem-partner-id'' (the (partnerId e))
               else Inr h))"

text \<open>The loop over the platform headers (lines 52 to 54).\<close>

fun set_all :: "(string \<times> string) list \<Rightarrow> Headers \<Rightarrow> exception + Headers" where
  "set_all [] h = Inr h"
| "set_all ((key, v) # rest) h =
     (case Headers_set h key v of
        Inl x \<Rightarrow> Inl x
      | Inr h' \<Rightarrow> set_all rest h')"

text \<open>
  The whole of lines 27 to 55: the copy of the caller's headers, if any, and for a
  thirdweb URL the credential, the ecosystem and every platform header. The result is
  the exception thrown or the headers, and the state at that point: the cache is
  written before the first \<open>set\<close>, the memo of the platform headers before the loop.
\<close>

definition fetchWithHeaders_headers ::
  "environment \<Rightarrow> ThirdwebClient \<Rightarrow> Ecosystem option \<Rightarrow> state \<Rightarrow> string \<Rightarrow> Headers option
     \<Rightarrow> (exception + Headers option) \<times> state" where
  "fetchWithHeaders_headers env client ecosystem st url init_headers =
     (let headers0 = (case init_headers of None \<Rightarrow> None | Some h \<Rightarrow> Some h);
          (thirdweb, cache') = isThirdwebUrl env (cache st) url;
          st1 = st\<lparr>cache := cache'\<rparr>
      in if thirdweb then
           (let headers1 = (case headers0 of None \<Rightarrow> Map.empty | Some h \<Rightarrow> h)
            in case set_credential env client url headers1 of
                 Inl x \<Rightarrow> (Inl x, st1)
               | Inr headers2 \<Rightarrow>
                   (case set_ecosystem ecosystem headers2 of
                      Inl x \<Rightarrow> (Inl x, st1)
                    | Inr headers3 \<Rightarrow>
                        (let (platform, memo) = getPlatformHeaders env (previousPlatform st1);
                             st2 = st1\<lparr>previousPlatform := memo\<rparr>
                         in case set_all platform headers3 of
                              Inl x \<Rightarrow> (Inl x, st2)
                            | Inr headers4 \<Rightarrow> (Inr (Some headers4), st2))))
         else (Inr headers0, st1))"

text \<open>
  The controller and the timer (lines 57 to 64). The handle of a timer is truthy
  wherever it is defined (a positive integer in a browser, an object in Node), so
  \<open>if (abortTimeout)\<close> asks whether the timer was set.
\<close>

definition fetchWithHeaders_timeout ::
  "environment \<Rightarrow> state \<Rightarrow> js_number \<Rightarrow> nat option \<times> nat option \<times> state" where
  "fetchWithHeaders_timeout env st ms =
     (if truthy_number ms then
        (let (controller, st1) = new_AbortController st;
             (abortTimeout, st2) = setTimeout env st1 controller ms
         in (Some controller, Some abortTimeout, st2))
      else (None, None, st))"

text \<open>The handler of \<open>finally\<close> (lines 70 to 74).\<close>

definition fetchWithHeaders_finally :: "state \<Rightarrow> nat option \<Rightarrow> state" where
  "fetchWithHeaders_finally st abortTimeout =
     (case abortTimeout of
        Some h \<Rightarrow> clearTimeout st h
      | None \<Rightarrow> st)"

text \<open>
  The whole call: the call handed to \<open>fetch\<close> (\<open>None\<close>: an exception of \<open>set\<close>
  rejected the promise before \<open>fetch\<close> was reached, and no controller or timer
  was made), how the returned promise settles (\<open>None\<close>: it never does) and the state
  then. The handler of \<open>finally\<close> runs when the promise of \<open>fetch\<close> settles,
  fulfilled or rejected, and the promise returned settles as that one did.
\<close>

definition fetchWithHeaders ::
  "environment \<Rightarrow> ThirdwebClient \<Rightarrow> Ecosystem option \<Rightarrow> (fetch_call \<Rightarrow> transport) \<Rightarrow> state
     \<Rightarrow> string \<Rightarrow> RequestInit option \<Rightarrow> fetch_call option \<times> settled option \<times> state" where
  "fetchWithHeaders env client ecosystem fetch st url init =
     (let ms = (case init of
                  None \<Rightarrow> DEFAULT_REQUEST_TIMEOUT
                | Some i \<Rightarrow> (case requestTimeoutMs i of
                              None \<Rightarrow> DEFAULT_REQUEST_TIMEOUT
                            | Some n \<Rightarrow> n));
          (result, st1) =
             fetchWithHeaders_headers env client ecosystem st url
               (case init of None \<Rightarrow> None | Some i \<Rightarrow> headers i)
      in case result of
           Inl x \<Rightarrow> (None, Some (Rejected ''TypeError''), st1)
         | Inr headers1 \<Rightarrow>
             (let (controller, abortTimeout, st2) = fetchWithHeaders_timeout env st1 ms;
                  call = \<lparr>call_url = url,
                          call_method = (case init of None \<Rightarrow> None | Some i \<Rightarrow> request_method i),
                          call_body = (case init of None \<Rightarrow> None | Some i \<Rightarrow> request_body i),
                          call_headers = headers1,
                          call_signal = controller\<rparr>;
                  (outcome, st3) = await_fetch st2 abortTimeout (fetch call)
              in case outcome of
                   None \<Rightarrow> (Some call, None, st3)
                 | Some r \<Rightarrow> (Some call, Some r, fetchWithHeaders_finally st3 abortTimeout)))"

subsection \<open>Calls in sequence, and an environment for examples\<close>

text \<open>The cache after the module has classified the URLs of a list, one after the other,
  starting from the cache as the module creates it.\<close>

definition cache_after :: "environment \<Rightarrow> string list \<Rightarrow> bool LruMap" where
  "cache_after env urls = fold (\<lambda>url c. snd (isThirdwebUrl env c url)) urls IS_THIRDWEB_URL_CACHE"

text \<open>The verdict of a call that finds nothing in the cache, and the caches all of whose
  entries hold such a verdict.\<close>

definition verdict :: "environment \<Rightarrow> string \<Rightarrow> bool" where
  "verdict env url = fst (isThirdwebUrl env IS_THIRDWEB_URL_CACHE url)"

definition consistent :: "environment \<Rightarrow> bool LruMap \<Rightarrow> bool" where
  "consistent env m = (0 < maxSize m \<and> list_all (\<lambda>(k, v). v = verdict env k) (entries m))"

text \<open>
  An environment to run the definitions in: a parser that accepts \<open>https://host/path\<close>
  and takes the host up to the first slash, a process with the given \<open>NODE_ENV\<close>, the
  given global \<open>TW_AUTH_TOKEN\<close>, neither \<open>navigator\<close> nor \<open>Application\<close>, and
  timers as Node clamps them.
\<close>

definition parse_example :: "string \<Rightarrow> exception + URL" where
  "parse_example s =
     (if take 8 s = ''https://'' \<and> takeWhile (\<lambda>c. c \<noteq> CHR ''/'') (drop 8 s) \<noteq> []
      then Inr \<lparr>hostname = takeWhile (\<lambda>c. c \<noteq> CHR ''/'') (drop 8 s)\<rparr>
      else Inl TypeError)"

definition env_example :: "string option \<Rightarrow> js_value option \<Rightarrow> environment" where
  "env_example mode token =
     \<lparr>new_URL = parse_example, NODE_ENV = Inr mode, TW_AUTH_TOKEN = token,
      navigator = None, Application = None, detectOS = (\<lambda>userAgent. None),
      detectPlatform = ''node'', version = ''5.0.0'',
      clamped_delay = (\<lambda>ms. 1)\<rparr>"

definition state_example :: state where
  "state_example =
     \<lparr>cache = IS_THIRDWEB_URL_CACHE, previousPlatform = None, now = 0, next_timer = 1,
      pending = [], next_controller = 0, aborted = []\<rparr>"

subsection \<open>The history of a cache\<close>

text \<open>
  Modelled from the spec: what "least recently used" means for the \<open>LruMap\<close> above.
  A cache is used by \<open>get\<close> and by \<open>set\<close>. Its history is the list of these
  accesses, the oldest first, and the age of a key is the number of accesses since the
  last one that named it (the length of the history, if none did). The least recently
  used entry is the one whose key has the greatest age.
\<close>

datatype 'v access = Get string | Put string 'v

fun key_of :: "'v access \<Rightarrow> string" where
  "key_of (Get k) = k"
| "key_of (Put k v) = k"

fun apply_access :: "'v LruMap \<Rightarrow> 'v access \<Rightarrow> 'v LruMap" where
  "apply_access m (Get k) = snd (LruMap_get m k)"
| "apply_access m (Put k v) = LruMap_set m k v"

definition age :: "'v access list \<Rightarrow> string \<Rightarrow> nat" where
  "age ops k = length (takeWhile (\<lambda>a. key_of a \<noteq> k) (rev ops))"

text \<open>The entries of a cache are in order of use: the keys are distinct, within the
  capacity, and their ages grow strictly from the front to the back.\<close>

definition recency :: "'v access list \<Rightarrow> 'v LruMap \<Rightarrow> bool" where
  "recency ops m =
     (distinct (LruMap_keys m) \<and> LruMap_size m \<le> maxSize m
      \<and> sorted_wrt (\<lambda>a b. age ops a < age ops b) (LruMap_keys m))"

text \<open>A history that fills a cache: \<open>n\<close> entries under the keys \<open>a\<close>, \<open>aa\<close>,
  \<open>aaa\<close> and so on.\<close>

definition fill :: "nat \<Rightarrow> bool access list" where
  "fill n = map (\<lambda>i. Put (replicate (Suc i) CHR ''a'') True) [0..<n]"




text \<open>
  A state in which the next controller and the next timer are new: no pending timer
  has the handle or aborts the controller, and the controller has not been aborted.
  The wrapper leaves such a state in such a state.
\<close>

definition fresh :: "state \<Rightarrow> bool" where
  "fresh st =
     (list_all (\<lambda>(h, due, controller). h < next_timer st \<and> controller < next_controller st)
        (pending st)
      \<and> list_all (\<lambda>controller. controller < next_controller st) (aborted st))"

section \<open>Properties\<close>

subsection \<open>Strings\<close>

lemma endsWith_iff: "endsWith s d \<longleftrightarrow> (\<exists>p. s = p @ d)"
  unfolding endsWith_def
  by (metis append_eq_conv_conj append_take_drop_id diff_add_inverse2 length_append le_add2 length_drop)

lemma startsWith_iff: "startsWith s p \<longleftrightarrow> (\<exists>r. s = p @ r)"
  unfolding startsWith_def
  by (metis append_eq_conv_conj append_take_drop_id)

lemma of_char_lower:
  "of_char (toLowerCase_char c) =
     (let n = (of_char c :: nat) in if 65 \<le> n \<and> n \<le> 90 then n + 32 else n)"
  unfolding toLowerCase_char_def Let_def by simp

lemma char_eq_code: "(c = d) \<longleftrightarrow> (of_char c :: nat) = of_char d"
  by simp

lemma lower_w: "toLowerCase_char a = CHR ''w'' \<longleftrightarrow> a = CHR ''w'' \<or> a = CHR ''W''"
  unfolding char_eq_code [of _ "CHR ''w''"] char_eq_code [of _ "CHR ''W''"] of_char_lower Let_def
  by auto

lemma lower_i: "toLowerCase_char a = CHR ''i'' \<longleftrightarrow> a = CHR ''i'' \<or> a = CHR ''I''"
  unfolding char_eq_code [of _ "CHR ''i''"] char_eq_code [of _ "CHR ''I''"] of_char_lower Let_def
  by auto

lemma lower_n: "toLowerCase_char a = CHR ''n'' \<longleftrightarrow> a = CHR ''n'' \<or> a = CHR ''N''"
  unfolding char_eq_code [of _ "CHR ''n''"] char_eq_code [of _ "CHR ''N''"] of_char_lower Let_def
  by auto

lemma whitespace_lower: "is_whitespace (toLowerCase_char c) = is_whitespace c"
  unfolding is_whitespace_def of_char_lower Let_def by auto

lemma startsWith_win:
  "startsWith (toLowerCase os) ''win'' \<longleftrightarrow>
     (\<exists>a b c rest. os = a # b # c # rest \<and> (a = CHR ''w'' \<or> a = CHR ''W'')
        \<and> (b = CHR ''i'' \<or> b = CHR ''I'') \<and> (c = CHR ''n'' \<or> c = CHR ''N''))"
proof (cases os)
  case Nil
  then show ?thesis by (simp add: startsWith_def toLowerCase_def)
next
  case (Cons a r1)
  note c1 = this
  show ?thesis
  proof (cases r1)
    case Nil
    with c1 show ?thesis by (simp add: startsWith_def toLowerCase_def)
  next
    case (Cons b r2)
    note c2 = this
    show ?thesis
    proof (cases r2)
      case Nil
      with c1 c2 show ?thesis by (simp add: startsWith_def toLowerCase_def)
    next
      case (Cons c r3)
      with c1 c2 show ?thesis
        by (simp add: startsWith_def toLowerCase_def lower_w lower_i lower_n)
    qed
  qed
qed

lemma replace_whitespace_lower:
  "replace_whitespace (toLowerCase os) =
     map (\<lambda>c. if is_whitespace c then CHR ''_'' else toLowerCase_char c) os"
  unfolding replace_whitespace_def toLowerCase_def by (simp add: whitespace_lower)

subsection \<open>The cache\<close>

lemma map_of_touch: "map_of (touch k v es) k' = (if k' = k then Some v else map_of es k')"
  unfolding touch_def by (induction es) auto

lemma set_touch: "set (touch k v es) \<subseteq> insert (k, v) (set es)"
  unfolding touch_def by auto

lemma has_get:
  "LruMap_has m k \<Longrightarrow>
     \<exists>v. map_of (entries m) k = Some v
        \<and> LruMap_get m k = (Some v, m\<lparr>entries := touch k v (entries m)\<rparr>)"
  unfolding LruMap_has_def LruMap_get_def by auto

lemma entries_set_head: "0 < maxSize m \<Longrightarrow> \<exists>rest. entries (LruMap_set m k v) = (k, v) # rest"
  unfolding LruMap_set_def touch_def Let_def
  by (cases "filter (\<lambda>e. fst e \<noteq> k) (entries m)") auto

lemma set_entries_set: "set (entries (LruMap_set m k v)) \<subseteq> insert (k, v) (set (entries m))"
  using set_touch [of k v "entries m"]
  unfolding LruMap_set_def Let_def by (auto dest: in_set_butlastD)

lemma maxSize_set [simp]: "maxSize (LruMap_set m k v) = maxSize m"
  unfolding LruMap_set_def Let_def by simp

lemma maxSize_get [simp]: "maxSize (snd (LruMap_get m k)) = maxSize m"
  unfolding LruMap_get_def by (simp split: option.splits)

lemma set_entries_get: "set (entries (snd (LruMap_get m k))) \<subseteq> set (entries m)"
  unfolding LruMap_get_def using set_touch [of k _ "entries m"]
  by (auto split: option.splits dest: map_of_SomeD)

lemma map_of_get: "map_of (entries (snd (LruMap_get m k))) = map_of (entries m)"
  unfolding LruMap_get_def by (auto simp: map_of_touch fun_eq_iff split: option.splits)

lemma map_of_set: "0 < maxSize m \<Longrightarrow> map_of (entries (LruMap_set m k v)) k = Some v"
  using entries_set_head [of m k v] by auto

subsection \<open>The classifier and its cache\<close>

lemma not_has_new [simp]: "\<not> LruMap_has IS_THIRDWEB_URL_CACHE url"
  by (simp add: LruMap_has_def IS_THIRDWEB_URL_CACHE_def LruMap_new_def)

lemma miss_verdict:
  "\<not> LruMap_has m url \<Longrightarrow>
     isThirdwebUrl env m url = (verdict env url, LruMap_set m url (verdict env url))"
  unfolding verdict_def isThirdwebUrl_def
  by (simp add: Let_def split: sum.splits)

lemma hit_verdict:
  "LruMap_has m url \<Longrightarrow>
     \<exists>v. map_of (entries m) url = Some v \<and> isThirdwebUrl env m url = (v, snd (LruMap_get m url))"
  using has_get [of m url] unfolding isThirdwebUrl_def by auto

lemma consistent_verdict:
  assumes c: "consistent env m"
  shows "fst (isThirdwebUrl env m url) = verdict env url"
proof (cases "LruMap_has m url")
  case True
  from hit_verdict [OF True, of env] obtain v where
    v: "map_of (entries m) url = Some v" "isThirdwebUrl env m url = (v, snd (LruMap_get m url))"
    by blast
  from v(1) have "(url, v) \<in> set (entries m)" by (rule map_of_SomeD)
  with c have "v = verdict env url" unfolding consistent_def list_all_iff by auto
  with v(2) show ?thesis by simp
next
  case False
  then show ?thesis by (simp add: miss_verdict)
qed

lemma consistent_step:
  assumes c: "consistent env m"
  shows "consistent env (snd (isThirdwebUrl env m url))"
proof (cases "LruMap_has m url")
  case True
  from hit_verdict [OF True, of env] obtain v where
    v: "isThirdwebUrl env m url = (v, snd (LruMap_get m url))" by blast
  show ?thesis
    using c set_entries_get [of m url] unfolding v consistent_def list_all_iff by auto
next
  case False
  show ?thesis
    using c set_entries_set [of m url "verdict env url"]
    unfolding miss_verdict [OF False] consistent_def list_all_iff by auto
qed

lemma consistent_new: "consistent env IS_THIRDWEB_URL_CACHE"
  by (simp add: consistent_def IS_THIRDWEB_URL_CACHE_def LruMap_new_def)

lemma consistent_fold:
  "consistent env m \<Longrightarrow> consistent env (fold (\<lambda>url c. snd (isThirdwebUrl env c url)) urls m)"
  by (induction urls arbitrary: m) (auto intro: consistent_step)

lemma consistent_cache_after: "consistent env (cache_after env urls)"
  unfolding cache_after_def by (rule consistent_fold [OF consistent_new])

lemma verdict_parsed:
  "new_URL env url = Inr u \<Longrightarrow>
   verdict env url =
     ((NODE_ENV env = Inr (Some ''development'') \<or> NODE_ENV env = Inr (Some ''test''))
        \<and> hostname u = ''localhost''
      \<or> list_ex (\<lambda>domain. endsWith (hostname u) domain) THIRDWEB_DOMAINS)"
  unfolding verdict_def isThirdwebUrl_def
  by (auto simp: Let_def THIRDWEB_DOMAINS_def endsWith_def split: sum.splits)

lemma verdict_malformed: "new_URL env url = Inl e \<Longrightarrow> verdict env url = False"
  unfolding verdict_def isThirdwebUrl_def by simp

lemma cached_after_call:
  assumes "0 < maxSize m"
  shows "map_of (entries (snd (isThirdwebUrl env m url))) url = Some (fst (isThirdwebUrl env m url))"
proof (cases "LruMap_has m url")
  case True
  from hit_verdict [OF True, of env] obtain v where
    v: "map_of (entries m) url = Some v" "isThirdwebUrl env m url = (v, snd (LruMap_get m url))"
    by blast
  then show ?thesis by (simp add: map_of_get)
next
  case False
  with assms show ?thesis by (simp add: miss_verdict map_of_set)
qed

subsection \<open>Claims about the classifier\<close>

text \<open>
  Claim C3. For every URL that parses, outside the localhost shortcut, and in every
  cache that earlier classifications in the same environment have left,
  \<open>isThirdwebUrl\<close> returns true if and only if the hostname is some string followed
  by one of \<open>.thirdweb.com\<close>, \<open>.ipfscdn.io\<close>, \<open>.thirdweb.dev\<close>,
  \<open>.thirdweb-dev.com\<close>. The hostname \<open>api.thirdweb.com\<close> is classified true;
  \<open>evilthirdweb.com\<close> and \<open>otherthirdweb.com\<close> are classified false.
\<close>

theorem isThirdwebUrl_suffix:
  assumes "new_URL env url = Inr u"
      and "\<not> ((NODE_ENV env = Inr (Some ''development'') \<or> NODE_ENV env = Inr (Some ''test''))
              \<and> hostname u = ''localhost'')"
  shows "(fst (isThirdwebUrl env (cache_after env urls) url)
           \<longleftrightarrow> (\<exists>p. hostname u = p @ ''.thirdweb.com'' \<or> hostname u = p @ ''.ipfscdn.io''
                    \<or> hostname u = p @ ''.thirdweb.dev'' \<or> hostname u = p @ ''.thirdweb-dev.com''))
       \<and> (hostname u = ''api.thirdweb.com'' \<longrightarrow> fst (isThirdwebUrl env (cache_after env urls) url))
       \<and> (hostname u = ''evilthirdweb.com'' \<or> hostname u = ''otherthirdweb.com''
            \<longrightarrow> \<not> fst (isThirdwebUrl env (cache_after env urls) url))"
proof -
  let ?suffixed = "list_ex (\<lambda>domain. endsWith (hostname u) domain) THIRDWEB_DOMAINS"
  have v: "fst (isThirdwebUrl env (cache_after env urls) url) = verdict env url"
    by (rule consistent_verdict [OF consistent_cache_after])
  have e: "verdict env url = ?suffixed"
    using assms(2) unfolding verdict_parsed [OF assms(1)] by blast
  have 1: "?suffixed
           \<longleftrightarrow> (\<exists>p. hostname u = p @ ''.thirdweb.com'' \<or> hostname u = p @ ''.ipfscdn.io''
                    \<or> hostname u = p @ ''.thirdweb.dev'' \<or> hostname u = p @ ''.thirdweb-dev.com'')"
    unfolding THIRDWEB_DOMAINS_def by (simp add: endsWith_iff del: append_eq_append_conv) blast
  have 2: "hostname u = ''api.thirdweb.com'' \<Longrightarrow> ?suffixed"
    unfolding THIRDWEB_DOMAINS_def by (simp add: endsWith_def)
  have 3: "hostname u = ''evilthirdweb.com'' \<or> hostname u = ''otherthirdweb.com'' \<Longrightarrow> \<not> ?suffixed"
    unfolding THIRDWEB_DOMAINS_def by (auto simp add: endsWith_def)
  show ?thesis unfolding v e using 1 2 3 by blast
qed

theorem isThirdwebUrl_suffix_witness:
  "new_URL (env_example (Some ''production'') None) ''https://api.thirdweb.com/v1/chains''
     = Inr \<lparr>hostname = ''api.thirdweb.com''\<rparr>
   \<and> NODE_ENV (env_example (Some ''production'') None) = Inr (Some ''production'')
   \<and> fst (isThirdwebUrl (env_example (Some ''production'') None)
            (cache_after (env_example (Some ''production'') None) [''https://example.com/api''])
            ''https://api.thirdweb.com/v1/chains'')"
proof -
  let ?env = "env_example (Some ''production'') None"
  have h: "new_URL ?env ''https://api.thirdweb.com/v1/chains'' = Inr \<lparr>hostname = ''api.thirdweb.com''\<rparr>"
    by (simp add: env_example_def parse_example_def)
  have m: "NODE_ENV ?env = Inr (Some ''production'')"
    by (simp add: env_example_def)
  have n: "\<not> ((NODE_ENV ?env = Inr (Some ''development'') \<or> NODE_ENV ?env = Inr (Some ''test''))
              \<and> hostname \<lparr>hostname = ''api.thirdweb.com''\<rparr> = ''localhost'')"
    by (simp add: env_example_def)
  from isThirdwebUrl_suffix [OF h n, of "[''https://example.com/api'']"] h m
  show ?thesis by simp
qed

text \<open>
  Claim C5. When the parser throws on the string, \<open>isThirdwebUrl\<close> returns false and a
  cache, so the exception stops in the handler; a call that misses the cache writes
  false under the string; and in every cache that earlier classifications in the same
  environment have left, the verdict is false and the cache holds false under the
  string when the call returns.
\<close>

theorem isThirdwebUrl_malformed:
  assumes "new_URL env url = Inl e"
  shows "(\<not> LruMap_has m url \<longrightarrow> isThirdwebUrl env m url = (False, LruMap_set m url False))
       \<and> fst (isThirdwebUrl env (cache_after env urls) url) = False
       \<and> LruMap_has (snd (isThirdwebUrl env (cache_after env urls) url)) url
       \<and> fst (LruMap_get (snd (isThirdwebUrl env (cache_after env urls) url)) url) = Some False"
proof -
  let ?c = "cache_after env urls"
  have v: "verdict env url = False" using assms by (rule verdict_malformed)
  have 1: "\<not> LruMap_has m url \<longrightarrow> isThirdwebUrl env m url = (False, LruMap_set m url False)"
    using miss_verdict [of m url env] v by simp
  have 2: "fst (isThirdwebUrl env ?c url) = False"
    using consistent_verdict [OF consistent_cache_after, of env urls url] v by simp
  have p: "0 < maxSize ?c" using consistent_cache_after [of env urls] by (simp add: consistent_def)
  have 3: "map_of (entries (snd (isThirdwebUrl env ?c url))) url = Some False"
    using cached_after_call [OF p, of env url] 2 by simp
  from 3 have 4: "LruMap_has (snd (isThirdwebUrl env ?c url)) url" by (simp add: LruMap_has_def)
  from 3 have 5: "fst (LruMap_get (snd (isThirdwebUrl env ?c url)) url) = Some False"
    by (simp add: LruMap_get_def)
  from 1 2 4 5 show ?thesis by blast
qed

theorem isThirdwebUrl_malformed_witness:
  "new_URL (env_example None None) ''not a url'' = Inl TypeError
   \<and> isThirdwebUrl (env_example None None) IS_THIRDWEB_URL_CACHE ''not a url''
       = (False, LruMap_set IS_THIRDWEB_URL_CACHE ''not a url'' False)
   \<and> fst (LruMap_get (snd (isThirdwebUrl (env_example None None)
                              (cache_after (env_example None None) [''https://api.thirdweb.com/v1''])
                              ''not a url'')) ''not a url'') = Some False"
proof -
  have h: "new_URL (env_example None None) ''not a url'' = Inl TypeError"
    by (simp add: env_example_def parse_example_def)
  from isThirdwebUrl_malformed [OF h, of IS_THIRDWEB_URL_CACHE "[''https://api.thirdweb.com/v1'']"] h
  show ?thesis by simp
qed

text \<open>
  Claim C6. In a cache of positive capacity, every call of \<open>isThirdwebUrl\<close> leaves its
  verdict in the cache under the URL: a call that misses the cache writes it with
  \<open>set\<close>, whichever branch computed it. A second call on the same string then returns
  the same verdict whatever the environment is, the parser included: it is read from
  the cache. Any later call in the same environment returns that verdict as well.
\<close>

theorem isThirdwebUrl_cached:
  assumes "0 < maxSize m"
  shows "(\<not> LruMap_has m url \<longrightarrow>
            snd (isThirdwebUrl env m url) = LruMap_set m url (fst (isThirdwebUrl env m url)))
       \<and> LruMap_has (snd (isThirdwebUrl env m url)) url
       \<and> fst (LruMap_get (snd (isThirdwebUrl env m url)) url) = Some (fst (isThirdwebUrl env m url))
       \<and> (\<forall>env'. fst (isThirdwebUrl env' (snd (isThirdwebUrl env m url)) url)
                  = fst (isThirdwebUrl env m url))
       \<and> (\<forall>urls urls'. fst (isThirdwebUrl env (cache_after env (urls @ url # urls')) url)
                  = fst (isThirdwebUrl env (cache_after env urls) url))"
proof -
  let ?v = "fst (isThirdwebUrl env m url)" and ?m' = "snd (isThirdwebUrl env m url)"
  have 1: "\<not> LruMap_has m url \<longrightarrow> ?m' = LruMap_set m url ?v"
    by (simp add: miss_verdict)
  have c: "map_of (entries ?m') url = Some ?v" using assms by (rule cached_after_call)
  then have 2: "LruMap_has ?m' url" by (simp add: LruMap_has_def)
  from c have 3: "fst (LruMap_get ?m' url) = Some ?v" by (simp add: LruMap_get_def)
  have 4: "fst (isThirdwebUrl env' ?m' url) = ?v" for env'
    using hit_verdict [OF 2, of env'] c by auto
  have 5: "fst (isThirdwebUrl env (cache_after env (urls @ url # urls')) url)
           = fst (isThirdwebUrl env (cache_after env urls) url)" for urls urls'
    by (simp add: consistent_verdict [OF consistent_cache_after])
  from 1 2 3 4 5 show ?thesis by blast
qed

theorem isThirdwebUrl_cached_witness:
  "0 < maxSize IS_THIRDWEB_URL_CACHE
   \<and> fst (isThirdwebUrl (env_example None None) IS_THIRDWEB_URL_CACHE ''https://api.thirdweb.com/v1'') = True
   \<and> fst (isThirdwebUrl (env_example None None)
            (snd (isThirdwebUrl (env_example None None) IS_THIRDWEB_URL_CACHE ''https://api.thirdweb.com/v1''))
            ''https://api.thirdweb.com/v1'') = True"
proof -
  let ?env = "env_example None None" and ?url = "''https://api.thirdweb.com/v1''"
  have h: "0 < maxSize (IS_THIRDWEB_URL_CACHE :: bool LruMap)"
    by (simp add: IS_THIRDWEB_URL_CACHE_def LruMap_new_def)
  have v: "fst (isThirdwebUrl ?env IS_THIRDWEB_URL_CACHE ?url) = True"
    by (simp add: isThirdwebUrl_def env_example_def parse_example_def THIRDWEB_DOMAINS_def endsWith_def)
  from isThirdwebUrl_cached [OF h, of ?url ?env]
  have "fst (isThirdwebUrl ?env (snd (isThirdwebUrl ?env IS_THIRDWEB_URL_CACHE ?url)) ?url)
        = fst (isThirdwebUrl ?env IS_THIRDWEB_URL_CACHE ?url)"
    by blast
  with h v show ?thesis by simp
qed

text \<open>
  Claim C9, as amended. When \<open>NODE_ENV\<close> is \<open>development\<close> or \<open>test\<close> and the URL
  parses to the hostname \<open>localhost\<close>, \<open>isThirdwebUrl\<close> returns true: a call that
  misses the cache writes true under the URL, and in every cache that earlier
  classifications in the same environment have left, the verdict is true and the
  cache holds true under the URL when the call returns.
\<close>

theorem isThirdwebUrl_localhost:
  assumes "new_URL env url = Inr u" and "hostname u = ''localhost''"
      and "NODE_ENV env = Inr (Some ''development'') \<or> NODE_ENV env = Inr (Some ''test'')"
  shows "(\<not> LruMap_has m url \<longrightarrow> isThirdwebUrl env m url = (True, LruMap_set m url True))
       \<and> fst (isThirdwebUrl env (cache_after env urls) url) = True
       \<and> LruMap_has (snd (isThirdwebUrl env (cache_after env urls) url)) url
       \<and> fst (LruMap_get (snd (isThirdwebUrl env (cache_after env urls) url)) url) = Some True"
proof -
  let ?c = "cache_after env urls"
  have v: "verdict env url = True" using assms by (simp add: verdict_parsed)
  have 1: "\<not> LruMap_has m url \<longrightarrow> isThirdwebUrl env m url = (True, LruMap_set m url True)"
    using miss_verdict [of m url env] v by simp
  have 2: "fst (isThirdwebUrl env ?c url) = True"
    using consistent_verdict [OF consistent_cache_after, of env urls url] v by simp
  have p: "0 < maxSize ?c" using consistent_cache_after [of env urls] by (simp add: consistent_def)
  have 3: "map_of (entries (snd (isThirdwebUrl env ?c url))) url = Some True"
    using cached_after_call [OF p, of env url] 2 by simp
  from 3 have 4: "LruMap_has (snd (isThirdwebUrl env ?c url)) url" by (simp add: LruMap_has_def)
  from 3 have 5: "fst (LruMap_get (snd (isThirdwebUrl env ?c url)) url) = Some True"
    by (simp add: LruMap_get_def)
  from 1 2 4 5 show ?thesis by blast
qed

theorem isThirdwebUrl_localhost_witness:
  "new_URL (env_example (Some ''test'') None) ''https://localhost/api'' = Inr \<lparr>hostname = ''localhost''\<rparr>
   \<and> NODE_ENV (env_example (Some ''test'') None) = Inr (Some ''test'')
   \<and> isThirdwebUrl (env_example (Some ''test'') None) IS_THIRDWEB_URL_CACHE ''https://localhost/api''
       = (True, LruMap_set IS_THIRDWEB_URL_CACHE ''https://localhost/api'' True)"
proof -
  let ?env = "env_example (Some ''test'') None"
  have h: "new_URL ?env ''https://localhost/api'' = Inr \<lparr>hostname = ''localhost''\<rparr>"
    by (simp add: env_example_def parse_example_def)
  have n: "hostname \<lparr>hostname = ''localhost''\<rparr> = ''localhost''" by simp
  have e: "NODE_ENV ?env = Inr (Some ''test'')" by (simp add: env_example_def)
  then have d: "NODE_ENV ?env = Inr (Some ''development'') \<or> NODE_ENV ?env = Inr (Some ''test'')"
    by simp
  from isThirdwebUrl_localhost [OF h n d, of IS_THIRDWEB_URL_CACHE] h e
  show ?thesis by simp
qed

text \<open>
  Claim C9, as stated, fails in a mode that is not production and is neither
  \<open>development\<close> nor \<open>test\<close>: with \<open>NODE_ENV\<close> set to \<open>staging\<close> the
  hostname \<open>localhost\<close> is classified false, and false is what the cache holds.
\<close>

theorem isThirdwebUrl_localhost_staging:
  "new_URL (env_example (Some ''staging'') None) ''https://localhost/api'' = Inr \<lparr>hostname = ''localhost''\<rparr>
   \<and> NODE_ENV (env_example (Some ''staging'') None) = Inr (Some ''staging'')
   \<and> isThirdwebUrl (env_example (Some ''staging'') None) IS_THIRDWEB_URL_CACHE ''https://localhost/api''
       = (False, LruMap_set IS_THIRDWEB_URL_CACHE ''https://localhost/api'' False)"
  by (simp add: isThirdwebUrl_def env_example_def parse_example_def THIRDWEB_DOMAINS_def
        endsWith_def LruMap_has_def IS_THIRDWEB_URL_CACHE_def LruMap_new_def)

subsection \<open>Claims about the headers of a request\<close>

lemma call_headers_fetch:
  "map_option call_headers (fst (fetchWithHeaders env client ecosystem fetch st url init))
     = (case fst (fetchWithHeaders_headers env client ecosystem st url
                    (case init of None \<Rightarrow> None | Some i \<Rightarrow> headers i)) of
          Inl x \<Rightarrow> None
        | Inr h \<Rightarrow> Some h)"
proof -
  obtain res st1 where h: "fetchWithHeaders_headers env client ecosystem st url
              (case init of None \<Rightarrow> None | Some i \<Rightarrow> headers i) = (res, st1)"
    by (cases "fetchWithHeaders_headers env client ecosystem st url
              (case init of None \<Rightarrow> None | Some i \<Rightarrow> headers i)")
  show ?thesis
    unfolding fetchWithHeaders_def Let_def h
    by (simp split: sum.splits prod.splits option.splits)
qed

lemma headers_not_thirdweb:
  "\<not> fst (isThirdwebUrl env (cache st) url) \<Longrightarrow>
     fetchWithHeaders_headers env client ecosystem st url h
       = (Inr h, st\<lparr>cache := snd (isThirdwebUrl env (cache st) url)\<rparr>)"
  unfolding fetchWithHeaders_headers_def
  by (cases "isThirdwebUrl env (cache st) url") (simp add: Let_def split: option.splits)

text \<open>
  Claim C2. When \<open>isThirdwebUrl\<close> classifies the URL as not first-party, the call
  reaches \<open>fetch\<close> and the headers handed to it are the caller's headers and nothing
  else: none when the caller passed no \<open>init\<close> or no headers in it, and otherwise
  the copy of the caller's headers, with no credential, ecosystem or platform header
  added.
\<close>

theorem fetchWithHeaders_not_thirdweb:
  assumes "\<not> fst (isThirdwebUrl env (cache st) url)"
  shows "map_option call_headers (fst (fetchWithHeaders env client ecosystem fetch st url None))
           = Some None
       \<and> map_option call_headers (fst (fetchWithHeaders env client ecosystem fetch st url (Some init)))
           = Some (headers init)"
  using assms by (simp add: call_headers_fetch headers_not_thirdweb)

lemma verdict_example: "verdict (env_example mode token) ''https://example.com/api'' = False"
  by (simp add: verdict_def isThirdwebUrl_def env_example_def parse_example_def
        THIRDWEB_DOMAINS_def endsWith_def Let_def)

theorem fetchWithHeaders_not_thirdweb_witness:
  "\<not> fst (isThirdwebUrl (env_example None (Some (JSString ''token''))) (cache state_example) ''https://example.com/api'')
   \<and> map_option call_headers (fst (fetchWithHeaders (env_example None (Some (JSString ''token'')))
         \<lparr>secretKey = Some ''sk'', clientId = Some ''id''\<rparr> (Some \<lparr>id' = ''eco'', partnerId = None\<rparr>)
         (\<lambda>c. Settles 5 True (Fulfilled ''ok'')) state_example ''https://example.com/api''
         (Some \<lparr>request_method = None, request_body = None,
                headers = Some [''accept'' \<mapsto> ''text/html''], requestTimeoutMs = None\<rparr>)))
       = Some (Some [''accept'' \<mapsto> ''text/html''])"
proof -
  have h: "\<not> fst (isThirdwebUrl (env_example None (Some (JSString ''token''))) (cache state_example) ''https://example.com/api'')"
    using verdict_example [of None "Some (JSString ''token'')"]
    by (simp add: verdict_def state_example_def)
  from fetchWithHeaders_not_thirdweb [OF h, where client = "\<lparr>secretKey = Some ''sk'', clientId = Some ''id''\<rparr>"
      and ecosystem = "Some \<lparr>id' = ''eco'', partnerId = None\<rparr>"
      and fetch = "\<lambda>c. Settles 5 True (Fulfilled ''ok'')"
      and init = "\<lparr>request_method = None, request_body = None,
                headers = Some [''accept'' \<mapsto> ''text/html''], requestTimeoutMs = None\<rparr>"] h
  show ?thesis by simp
qed

text \<open>
  Claim C10. A URL whose hostname is one of the first-party domains with nothing in
  front (\<open>thirdweb.com\<close>, \<open>ipfscdn.io\<close>, \<open>thirdweb.dev\<close>,
  \<open>thirdweb-dev.com\<close>) is classified as not first-party, in every mode and in every
  cache that earlier classifications in the same environment have left; the request
  then reaches \<open>fetch\<close> with the caller's headers only.
\<close>

theorem isThirdwebUrl_apex:
  assumes "new_URL env url = Inr u"
      and "hostname u = ''thirdweb.com'' \<or> hostname u = ''ipfscdn.io''
           \<or> hostname u = ''thirdweb.dev'' \<or> hostname u = ''thirdweb-dev.com''"
      and "cache st = cache_after env urls"
  shows "fst (isThirdwebUrl env (cache_after env urls) url) = False
       \<and> map_option call_headers (fst (fetchWithHeaders env client ecosystem fetch st url None))
           = Some None
       \<and> map_option call_headers (fst (fetchWithHeaders env client ecosystem fetch st url (Some init)))
           = Some (headers init)"
proof -
  have "\<not> list_ex (\<lambda>domain. endsWith (hostname u) domain) THIRDWEB_DOMAINS"
    using assms(2) unfolding THIRDWEB_DOMAINS_def by (auto simp: endsWith_def)
  moreover have "hostname u \<noteq> ''localhost''" using assms(2) by auto
  ultimately have "verdict env url = False"
    unfolding verdict_parsed [OF assms(1)] by simp
  then have f: "\<not> fst (isThirdwebUrl env (cache st) url)"
    unfolding assms(3) by (simp add: consistent_verdict [OF consistent_cache_after])
  then show ?thesis unfolding assms(3) [symmetric]
    by (simp add: call_headers_fetch headers_not_thirdweb)
qed

theorem isThirdwebUrl_apex_witness:
  "new_URL (env_example (Some ''test'') None) ''https://thirdweb.com/dashboard'' = Inr \<lparr>hostname = ''thirdweb.com''\<rparr>
   \<and> cache state_example = cache_after (env_example (Some ''test'') None) []
   \<and> fst (isThirdwebUrl (env_example (Some ''test'') None) (cache_after (env_example (Some ''test'') None) []) ''https://thirdweb.com/dashboard'') = False
   \<and> map_option call_headers (fst (fetchWithHeaders (env_example (Some ''test'') None)
         \<lparr>secretKey = Some ''sk'', clientId = Some ''id''\<rparr> None
         (\<lambda>c. Settles 5 True (Fulfilled ''ok'')) state_example ''https://thirdweb.com/dashboard'' None))
       = Some None"
proof -
  let ?env = "env_example (Some ''test'') None"
  have h: "new_URL ?env ''https://thirdweb.com/dashboard'' = Inr \<lparr>hostname = ''thirdweb.com''\<rparr>"
    by (simp add: env_example_def parse_example_def)
  have a: "hostname \<lparr>hostname = ''thirdweb.com''\<rparr> = ''thirdweb.com'' \<or> hostname \<lparr>hostname = ''thirdweb.com''\<rparr> = ''ipfscdn.io''
           \<or> hostname \<lparr>hostname = ''thirdweb.com''\<rparr> = ''thirdweb.dev'' \<or> hostname \<lparr>hostname = ''thirdweb.com''\<rparr> = ''thirdweb-dev.com''"
    by simp
  have c: "cache state_example = cache_after ?env []"
    by (simp add: state_example_def cache_after_def)
  from isThirdwebUrl_apex [OF h a c, where client = "\<lparr>secretKey = Some ''sk'', clientId = Some ''id''\<rparr>"
      and ecosystem = None and fetch = "\<lambda>c. Settles 5 True (Fulfilled ''ok'')"] h c
  show ?thesis by simp
qed

subsection \<open>Claims about the platform headers\<close>

lemma parseOs_mac: "parseOs ''Mac OS'' = ''mac''" by code_simp

lemma parseOs_ios: "parseOs ''iOS'' = ''ios''" by code_simp

lemma parseOs_android: "parseOs ''Android OS'' = ''android''" by code_simp

lemma parseOs_windows_nt: "parseOs ''Windows NT 10.0'' = ''win''" by code_simp

lemma parseOs_weird: "parseOs ''Some Weird OS'' = ''some_weird_os''" by code_simp

lemma parseOs_win:
  assumes "a = CHR ''w'' \<or> a = CHR ''W''" "b = CHR ''i'' \<or> b = CHR ''I''" "c = CHR ''n'' \<or> c = CHR ''N''"
  shows "parseOs (a # b # c # rest) = ''win''"
proof -
  have "startsWith (toLowerCase (a # b # c # rest)) ''win''"
    unfolding startsWith_win using assms by blast
  then show ?thesis unfolding parseOs_def Let_def by (simp only: if_True)
qed

lemma parseOs_other:
  assumes "\<not> startsWith (toLowerCase os) ''win''"
      and "os \<noteq> ''Mac OS''" "os \<noteq> ''iOS''" "os \<noteq> ''Android OS''"
  shows "parseOs os = map (\<lambda>c. if is_whitespace c then CHR ''_'' else toLowerCase_char c) os"
  unfolding parseOs_def Let_def replace_whitespace_lower
  by (simp only: assms if_False)

text \<open>
  Claim C8. \<open>parseOs\<close> maps a token whose first three characters are \<open>w\<close>, \<open>i\<close>,
  \<open>n\<close> in either case to \<open>win\<close>; the tokens \<open>Mac OS\<close>, \<open>iOS\<close> and
  \<open>Android OS\<close> to \<open>mac\<close>, \<open>ios\<close> and \<open>android\<close>; and any other token to a
  string of the same length in which every whitespace character, hence every run of
  them, has become an underscore (one for each character) and every other character
  is lower-cased. So \<open>Windows NT 10.0\<close> gives \<open>win\<close> and \<open>Some Weird OS\<close> gives
  \<open>some_weird_os\<close>. Where \<open>navigator\<close> is not defined, the header \<open>x-sdk-os\<close>
  that \<open>getPlatformHeaders\<close> computes, and returns from its memo afterwards, is
  \<open>unknown\<close>.
\<close>

theorem parseOs_table:
  "((a = CHR ''w'' \<or> a = CHR ''W'') \<and> (b = CHR ''i'' \<or> b = CHR ''I'') \<and> (c = CHR ''n'' \<or> c = CHR ''N'')
      \<longrightarrow> parseOs (a # b # c # rest) = ''win'')
   \<and> parseOs ''Mac OS'' = ''mac'' \<and> parseOs ''iOS'' = ''ios'' \<and> parseOs ''Android OS'' = ''android''
   \<and> (\<not> (\<exists>a b c rest. os = a # b # c # rest \<and> (a = CHR ''w'' \<or> a = CHR ''W'')
              \<and> (b = CHR ''i'' \<or> b = CHR ''I'') \<and> (c = CHR ''n'' \<or> c = CHR ''N''))
        \<and> os \<noteq> ''Mac OS'' \<and> os \<noteq> ''iOS'' \<and> os \<noteq> ''Android OS''
      \<longrightarrow> length (parseOs os) = length os
          \<and> (\<forall>i < length os. parseOs os ! i
                = (if is_whitespace (os ! i) then CHR ''_'' else toLowerCase_char (os ! i))))
   \<and> parseOs ''Windows NT 10.0'' = ''win'' \<and> parseOs ''Some Weird OS'' = ''some_weird_os''
   \<and> (navigator env = None
      \<longrightarrow> map_of (fst (getPlatformHeaders env None)) ''x-sdk-os'' = Some ''unknown''
        \<and> map_of (fst (getPlatformHeaders env (snd (getPlatformHeaders env None)))) ''x-sdk-os''
            = Some ''unknown'')"
proof -
  have 1: "(a = CHR ''w'' \<or> a = CHR ''W'') \<and> (b = CHR ''i'' \<or> b = CHR ''I'') \<and> (c = CHR ''n'' \<or> c = CHR ''N'')
      \<longrightarrow> parseOs (a # b # c # rest) = ''win''"
    using parseOs_win [of a b c rest] by (intro impI) (elim conjE)
  have 2: "\<not> (\<exists>a b c rest. os = a # b # c # rest \<and> (a = CHR ''w'' \<or> a = CHR ''W'')
              \<and> (b = CHR ''i'' \<or> b = CHR ''I'') \<and> (c = CHR ''n'' \<or> c = CHR ''N''))
        \<and> os \<noteq> ''Mac OS'' \<and> os \<noteq> ''iOS'' \<and> os \<noteq> ''Android OS''
      \<longrightarrow> length (parseOs os) = length os
          \<and> (\<forall>i < length os. parseOs os ! i
                = (if is_whitespace (os ! i) then CHR ''_'' else toLowerCase_char (os ! i)))"
  proof (intro impI, elim conjE)
    assume "\<not> (\<exists>a b c rest. os = a # b # c # rest \<and> (a = CHR ''w'' \<or> a = CHR ''W'')
              \<and> (b = CHR ''i'' \<or> b = CHR ''I'') \<and> (c = CHR ''n'' \<or> c = CHR ''N''))"
    then have n: "\<not> startsWith (toLowerCase os) ''win''" unfolding startsWith_win .
    assume "os \<noteq> ''Mac OS''" "os \<noteq> ''iOS''" "os \<noteq> ''Android OS''"
    with n have "parseOs os = map (\<lambda>c. if is_whitespace c then CHR ''_'' else toLowerCase_char c) os"
      by (rule parseOs_other)
    then show "length (parseOs os) = length os
          \<and> (\<forall>i < length os. parseOs os ! i
                = (if is_whitespace (os ! i) then CHR ''_'' else toLowerCase_char (os ! i)))"
      by simp
  qed
  have 3: "navigator env = None
      \<longrightarrow> map_of (fst (getPlatformHeaders env None)) ''x-sdk-os'' = Some ''unknown''
        \<and> map_of (fst (getPlatformHeaders env (snd (getPlatformHeaders env None)))) ''x-sdk-os''
            = Some ''unknown''"
    unfolding getPlatformHeaders_def by (simp add: Let_def)
  show ?thesis
    by (rule conjI [OF 1 conjI [OF parseOs_mac conjI [OF parseOs_ios conjI [OF parseOs_android
          conjI [OF 2 conjI [OF parseOs_windows_nt conjI [OF parseOs_weird 3]]]]]]])
qed

theorem parseOs_table_witness:
  "parseOs ''WINDOWS 11'' = ''win''
   \<and> length (parseOs ''Chrome  OS'') = 10
   \<and> parseOs ''Chrome  OS'' ! 6 = CHR ''_'' \<and> parseOs ''Chrome  OS'' ! 7 = CHR ''_''
   \<and> navigator (env_example None None) = None
   \<and> map_of (fst (getPlatformHeaders (env_example None None) None)) ''x-sdk-os'' = Some ''unknown''"
proof -
  note t = parseOs_table [of "CHR ''W''" "CHR ''I''" "CHR ''N''" "''DOWS 11''" "''Chrome  OS''"
      "env_example None None"]
  have n: "navigator (env_example None None) = None" by (simp add: env_example_def)
  from t have 1: "parseOs ''WINDOWS 11'' = ''win''" by simp
  from t n have 3: "map_of (fst (getPlatformHeaders (env_example None None) None)) ''x-sdk-os'' = Some ''unknown''"
    by blast
  from t have d: "length (parseOs ''Chrome  OS'') = length ''Chrome  OS''
          \<and> (\<forall>i < length ''Chrome  OS''. parseOs ''Chrome  OS'' ! i
                = (if is_whitespace (''Chrome  OS'' ! i) then CHR ''_'' else toLowerCase_char (''Chrome  OS'' ! i)))"
    by simp
  then have 2: "length (parseOs ''Chrome  OS'') = 10" by simp
  from d have "parseOs ''Chrome  OS'' ! 6
                = (if is_whitespace (''Chrome  OS'' ! 6) then CHR ''_'' else toLowerCase_char (''Chrome  OS'' ! 6))"
    by simp
  then have 4: "parseOs ''Chrome  OS'' ! 6 = CHR ''_''" by (simp add: is_whitespace_def)
  from d have "parseOs ''Chrome  OS'' ! 7
                = (if is_whitespace (''Chrome  OS'' ! 7) then CHR ''_'' else toLowerCase_char (''Chrome  OS'' ! 7))"
    by simp
  then have 5: "parseOs ''Chrome  OS'' ! 7 = CHR ''_''" by (simp add: is_whitespace_def)
  from 1 2 3 4 5 n show ?thesis by blast
qed

subsection \<open>Claims about the credential of a first-party request\<close>









lemma truthy_the: "truthy x \<Longrightarrow> Some (the x) = x"
  by (cases x) simp_all
















subsection \<open>Claims about the timeout\<close>

lemma headers_state:
  "now (snd (fetchWithHeaders_headers env client ecosystem st url h)) = now st"
  "pending (snd (fetchWithHeaders_headers env client ecosystem st url h)) = pending st"
  "next_timer (snd (fetchWithHeaders_headers env client ecosystem st url h)) = next_timer st"
  "next_controller (snd (fetchWithHeaders_headers env client ecosystem st url h)) = next_controller st"
  "aborted (snd (fetchWithHeaders_headers env client ecosystem st url h)) = aborted st"
  unfolding fetchWithHeaders_headers_def
  by (cases "isThirdwebUrl env (cache st) url";
      cases "getPlatformHeaders env (previousPlatform st)";
      simp add: Let_def split: sum.splits)+

lemma await_no_timer:
  "await_fetch s None net =
     (case net of
        Silent \<Rightarrow> (None, s)
      | Settles t first r \<Rightarrow> (Some r, advance s (now s + t)))"
  unfolding await_fetch_def by (simp split: transport.splits)

lemma await_timer:
  "map_of (pending s) h = Some (due, c) \<Longrightarrow>
   await_fetch s (Some h) net =
     (case net of
        Silent \<Rightarrow> (Some (Rejected ''AbortError''), fire_timer (advance s due) h)
      | Settles t first r \<Rightarrow>
          if now s + t < due \<or> (now s + t = due \<and> first)
          then (Some r, advance s (now s + t))
          else (Some (Rejected ''AbortError''), fire_timer (advance s due) h))"
  unfolding await_fetch_def by (simp split: transport.splits)

lemma fetch_rejected_state:
  assumes "fetchWithHeaders_headers env client ecosystem st url
              (case init of None \<Rightarrow> None | Some i \<Rightarrow> headers i) = (Inl x, st1)"
  shows "fetchWithHeaders env client ecosystem fetch st url init
           = (None, Some (Rejected ''TypeError''), st1)"
  unfolding fetchWithHeaders_def Let_def assms by simp

lemma fetch_falsy:
  assumes "ms = (case init of None \<Rightarrow> Num 60000
                 | Some i \<Rightarrow> (case requestTimeoutMs i of None \<Rightarrow> Num 60000 | Some n \<Rightarrow> n))"
      and "\<not> truthy_number ms"
      and "fetchWithHeaders_headers env client ecosystem st url
              (case init of None \<Rightarrow> None | Some i \<Rightarrow> headers i) = (Inr h1, st1)"
      and "call = \<lparr>call_url = url,
                   call_method = (case init of None \<Rightarrow> None | Some i \<Rightarrow> request_method i),
                   call_body = (case init of None \<Rightarrow> None | Some i \<Rightarrow> request_body i),
                   call_headers = h1, call_signal = None\<rparr>"
  shows "fetchWithHeaders env client ecosystem fetch st url init =
     (case fetch call of
        Silent \<Rightarrow> (Some call, None, st1)
      | Settles t first r \<Rightarrow> (Some call, Some r, advance st1 (now st1 + t)))"
  using assms(2)
  unfolding fetchWithHeaders_def Let_def assms(3) assms(4) assms(1) DEFAULT_REQUEST_TIMEOUT_def
  by (simp add: fetchWithHeaders_timeout_def await_no_timer fetchWithHeaders_finally_def
        split: transport.splits)

lemma fetch_truthy:
  assumes "ms = (case init of None \<Rightarrow> Num 60000
                 | Some i \<Rightarrow> (case requestTimeoutMs i of None \<Rightarrow> Num 60000 | Some n \<Rightarrow> n))"
      and "truthy_number ms"
      and "fetchWithHeaders_headers env client ecosystem st url
              (case init of None \<Rightarrow> None | Some i \<Rightarrow> headers i) = (Inr h1, st1)"
      and "call = \<lparr>call_url = url,
                   call_method = (case init of None \<Rightarrow> None | Some i \<Rightarrow> request_method i),
                   call_body = (case init of None \<Rightarrow> None | Some i \<Rightarrow> request_body i),
                   call_headers = h1, call_signal = Some (next_controller st1)\<rparr>"
      and "st2 = st1\<lparr>next_controller := Suc (next_controller st1), next_timer := Suc (next_timer st1),
                     pending := (next_timer st1, now st1 + delay_of env ms, next_controller st1)
                                # pending st1\<rparr>"
  shows "fetchWithHeaders env client ecosystem fetch st url init =
     (case fetch call of
        Silent \<Rightarrow>
          (Some call, Some (Rejected ''AbortError''),
           clearTimeout (fire_timer (advance st2 (now st1 + delay_of env ms)) (next_timer st1))
             (next_timer st1))
      | Settles t first r \<Rightarrow>
          if t < delay_of env ms \<or> (t = delay_of env ms \<and> first)
          then (Some call, Some r, clearTimeout (advance st2 (now st1 + t)) (next_timer st1))
          else (Some call, Some (Rejected ''AbortError''),
                clearTimeout (fire_timer (advance st2 (now st1 + delay_of env ms)) (next_timer st1))
                  (next_timer st1)))"
proof -
  have t: "fetchWithHeaders_timeout env st1 ms = (Some (next_controller st1), Some (next_timer st1), st2)"
    using assms(2) unfolding fetchWithHeaders_timeout_def setTimeout_def new_AbortController_def assms(5)
    by (simp add: Let_def)
  have m: "map_of (pending st2) (next_timer st1) = Some (now st1 + delay_of env ms, next_controller st1)"
    unfolding assms(5) by simp
  have n: "now st2 = now st1" unfolding assms(5) by simp
  have e: "(case init of None \<Rightarrow> DEFAULT_REQUEST_TIMEOUT
            | Some i \<Rightarrow> (case requestTimeoutMs i of None \<Rightarrow> DEFAULT_REQUEST_TIMEOUT | Some n \<Rightarrow> n)) = ms"
    unfolding assms(1) DEFAULT_REQUEST_TIMEOUT_def ..
  show ?thesis
    unfolding fetchWithHeaders_def Let_def e assms(3) prod.case sum.case t assms(4) [symmetric]
      await_timer [OF m] n
    by (simp add: fetchWithHeaders_finally_def split: transport.splits)
qed







lemma fresh_advance: "fresh s \<Longrightarrow> fresh (advance s t)"
  unfolding fresh_def advance_def list_all_iff by auto

lemma fresh_clear: "fresh s \<Longrightarrow> fresh (clearTimeout s h)"
  unfolding fresh_def clearTimeout_def list_all_iff by auto

lemma fresh_fire: "fresh s \<Longrightarrow> fresh (fire_timer s h)"
  unfolding fresh_def fire_timer_def list_all_iff
  by (auto split: option.splits dest!: map_of_SomeD)

lemma fresh_arm:
  "fresh s \<Longrightarrow>
     fresh (s\<lparr>next_controller := Suc (next_controller s), next_timer := Suc (next_timer s),
              pending := (next_timer s, d, next_controller s) # pending s\<rparr>)"
  unfolding fresh_def list_all_iff by (auto intro: less_SucI)

lemma fresh_fetchWithHeaders:
  assumes "fresh st"
  shows "fresh (snd (snd (fetchWithHeaders env client ecosystem fetch st url init)))"
proof -
  let ?hi = "case init of None \<Rightarrow> None | Some i \<Rightarrow> headers i"
  let ?ms = "case init of None \<Rightarrow> Num 60000
             | Some i \<Rightarrow> (case requestTimeoutMs i of None \<Rightarrow> Num 60000 | Some n \<Rightarrow> n)"
  obtain res st1 where h: "fetchWithHeaders_headers env client ecosystem st url ?hi = (res, st1)"
    by (cases "fetchWithHeaders_headers env client ecosystem st url ?hi")
  note hs = headers_state [of env client ecosystem st url ?hi, unfolded h snd_conv]
  have f1: "fresh st1" using assms unfolding fresh_def hs .
  show ?thesis
  proof (cases res)
    case (Inl x)
    show ?thesis unfolding fetch_rejected_state [OF h [unfolded Inl]] using f1 by simp
  next
    case (Inr h1)
    show ?thesis
    proof (cases "truthy_number ?ms")
      case False
      show ?thesis
        unfolding fetch_falsy [OF refl False h [unfolded Inr] refl]
        using f1 by (simp add: fresh_advance split: transport.splits)
    next
      case True
      show ?thesis
        unfolding fetch_truthy [OF refl True h [unfolded Inr] refl refl]
        using f1
        by (simp add: fresh_advance fresh_clear fresh_fire fresh_arm split: transport.splits)
    qed
  qed
qed




subsection \<open>Claims about the capacity of the cache\<close>

lemma keys_touch: "map fst (touch k v es) = k # filter (\<lambda>x. x \<noteq> k) (map fst es)"
  unfolding touch_def by (simp add: filter_map comp_def)

lemma age_snoc: "age (ops @ [a]) k = (if key_of a = k then 0 else Suc (age ops k))"
  unfolding age_def by simp

lemma sorted_age_snoc:
  assumes "sorted_wrt (\<lambda>x y. age ops x < age ops y) ks" and "key_of a \<notin> set ks"
  shows "sorted_wrt (\<lambda>x y. age (ops @ [a]) x < age (ops @ [a]) y) ks"
  using assms(1)
  by (rule sorted_wrt_mono_rel [rotated]) (use assms(2) in \<open>auto simp: age_snoc\<close>)

lemma sorted_age_touch:
  assumes "sorted_wrt (\<lambda>x y. age ops x < age ops y) ks" and "key_of a = k"
  shows "sorted_wrt (\<lambda>x y. age (ops @ [a]) x < age (ops @ [a]) y) (k # filter (\<lambda>x. x \<noteq> k) ks)"
proof -
  have "sorted_wrt (\<lambda>x y. age ops x < age ops y) (filter (\<lambda>x. x \<noteq> k) ks)"
    using assms(1) by (rule sorted_wrt_filter)
  then have "sorted_wrt (\<lambda>x y. age (ops @ [a]) x < age (ops @ [a]) y) (filter (\<lambda>x. x \<noteq> k) ks)"
    by (rule sorted_age_snoc) (simp add: assms(2))
  then show ?thesis by (auto simp: age_snoc assms(2))
qed

lemma sorted_wrt_butlast: "sorted_wrt P xs \<Longrightarrow> sorted_wrt P (butlast xs)"
  unfolding butlast_conv_take by (rule sorted_wrt_take)

lemma length_touch_le: "length (touch k v es) \<le> Suc (length es)"
  unfolding touch_def by simp

lemma length_touch_mem: "map_of es k = Some w \<Longrightarrow> length (touch k v es) \<le> length es"
proof -
  assume "map_of es k = Some w"
  then have "(k, w) \<in> set es" by (rule map_of_SomeD)
  then have "length (filter (\<lambda>e. fst e \<noteq> k) es) < length es"
    by (intro length_filter_less [of "(k, w)"]) simp_all
  then show ?thesis unfolding touch_def by simp
qed

lemma recency_touch:
  assumes "recency ops m" and "key_of a = k" and "length (touch k v (entries m)) \<le> maxSize m"
  shows "recency (ops @ [a]) (m\<lparr>entries := touch k v (entries m)\<rparr>)"
proof -
  have "distinct (k # filter (\<lambda>x. x \<noteq> k) (map fst (entries m)))"
    using assms(1) by (simp add: recency_def LruMap_keys_def)
  moreover have "sorted_wrt (\<lambda>x y. age (ops @ [a]) x < age (ops @ [a]) y)
      (k # filter (\<lambda>x. x \<noteq> k) (map fst (entries m)))"
    using assms(1,2) by (intro sorted_age_touch) (simp_all add: recency_def LruMap_keys_def)
  ultimately show ?thesis
    using assms(3) unfolding recency_def LruMap_keys_def LruMap_size_def
    by (simp add: keys_touch del: sorted_wrt.simps distinct.simps)
qed

lemma recency_get:
  assumes "recency ops m"
  shows "recency (ops @ [Get k]) (snd (LruMap_get m k))"
proof (cases "map_of (entries m) k")
  case None
  then have "k \<notin> set (LruMap_keys m)" by (simp add: LruMap_keys_def map_of_eq_None_iff)
  with assms None show ?thesis
    unfolding recency_def LruMap_get_def by (simp add: sorted_age_snoc)
next
  case (Some v)
  have "length (touch k v (entries m)) \<le> maxSize m"
    using length_touch_mem [OF Some, of v] assms by (simp add: recency_def LruMap_size_def)
  with assms have "recency (ops @ [Get k]) (m\<lparr>entries := touch k v (entries m)\<rparr>)"
    by (intro recency_touch) simp_all
  with Some show ?thesis by (simp add: LruMap_get_def)
qed

lemma recency_butlast:
  assumes "recency ops m" and "maxSize m \<le> Suc (maxSize m')"
      and "entries m' = butlast (entries m)"
  shows "recency ops m'"
proof -
  have "distinct (butlast (map fst (entries m)))"
    using assms(1) by (intro distinct_butlast) (simp add: recency_def LruMap_keys_def)
  moreover have "sorted_wrt (\<lambda>a b. age ops a < age ops b) (butlast (map fst (entries m)))"
    using assms(1) by (intro sorted_wrt_butlast) (simp add: recency_def LruMap_keys_def)
  moreover have "length (entries m) - 1 \<le> maxSize m'"
    using assms(1,2) unfolding recency_def LruMap_size_def by linarith
  ultimately show ?thesis
    unfolding recency_def LruMap_keys_def LruMap_size_def assms(3)
    by (simp add: map_butlast)
qed

lemma recency_set:
  assumes "recency ops m"
  shows "recency (ops @ [Put k v]) (LruMap_set m k v)"
proof (cases "maxSize m < length (touch k v (entries m))")
  case True
  let ?big = "m\<lparr>maxSize := Suc (maxSize m)\<rparr>"
  have "recency ops ?big"
    using assms unfolding recency_def LruMap_keys_def LruMap_size_def by simp
  moreover have "length (touch k v (entries ?big)) \<le> maxSize ?big"
    using length_touch_le [of k v "entries m"] assms by (simp add: recency_def LruMap_size_def)
  ultimately have "recency (ops @ [Put k v]) (?big\<lparr>entries := touch k v (entries ?big)\<rparr>)"
    by (intro recency_touch) simp_all
  then show ?thesis
    by (rule recency_butlast) (use True in \<open>simp_all add: LruMap_set_def Let_def\<close>)
next
  case False
  then have "length (touch k v (entries m)) \<le> maxSize m" by simp
  with assms have "recency (ops @ [Put k v]) (m\<lparr>entries := touch k v (entries m)\<rparr>)"
    by (intro recency_touch) simp_all
  with False show ?thesis by (simp add: LruMap_set_def Let_def)
qed

lemma recency_access: "recency ops m \<Longrightarrow> recency (ops @ [a]) (apply_access m a)"
  by (cases a) (simp_all add: recency_get recency_set)

lemma recency_new: "recency [] (LruMap_new n)"
  by (simp add: recency_def LruMap_new_def LruMap_keys_def LruMap_size_def)

lemma recency_foldl: "recency ops (foldl apply_access (LruMap_new n) ops)"
  by (induction ops rule: rev_induct) (simp_all add: recency_new recency_access)

lemma maxSize_foldl [simp]: "maxSize (foldl apply_access m ops) = maxSize m"
  by (induction ops arbitrary: m) (simp_all, case_tac a, simp_all)


lemma size_foldl: "LruMap_size (foldl apply_access (LruMap_new n) ops) \<le> n"
  using recency_foldl [of ops n] by (simp add: recency_def LruMap_new_def)

lemma isThirdwebUrl_access: "\<exists>a. snd (isThirdwebUrl env m url) = apply_access m a"
proof (cases "LruMap_has m url")
  case True
  from hit_verdict [OF True, of env] have "snd (isThirdwebUrl env m url) = apply_access m (Get url)"
    by auto
  then show ?thesis ..
next
  case False
  then have "snd (isThirdwebUrl env m url) = apply_access m (Put url (verdict env url))"
    by (simp add: miss_verdict)
  then show ?thesis ..
qed

lemma fold_isThirdwebUrl_accesses:
  "\<exists>ops. fold (\<lambda>url c. snd (isThirdwebUrl env c url)) urls m = foldl apply_access m ops"
proof (induction urls arbitrary: m)
  case Nil
  have "fold (\<lambda>url c. snd (isThirdwebUrl env c url)) [] m = foldl apply_access m []" by simp
  then show ?case ..
next
  case (Cons url urls)
  obtain a where a: "snd (isThirdwebUrl env m url) = apply_access m a"
    using isThirdwebUrl_access by blast
  from Cons [of "apply_access m a"] obtain ops where
    "fold (\<lambda>url c. snd (isThirdwebUrl env c url)) urls (apply_access m a)
       = foldl apply_access (apply_access m a) ops" by blast
  then have "fold (\<lambda>url c. snd (isThirdwebUrl env c url)) (url # urls) m = foldl apply_access m (a # ops)"
    by (simp add: a)
  then show ?case ..
qed

lemma cache_after_accesses: "\<exists>ops. cache_after env urls = foldl apply_access IS_THIRDWEB_URL_CACHE ops"
  unfolding cache_after_def by (rule fold_isThirdwebUrl_accesses)

lemma evict_lru:
  assumes r: "recency ops m" and full: "LruMap_size m = maxSize m" and pos: "0 < maxSize m"
      and miss: "\<not> LruMap_has m k"
  shows "LruMap_size (LruMap_set m k v) = maxSize m"
    and "LruMap_keys (LruMap_set m k v) = k # butlast (LruMap_keys m)"
    and "set (LruMap_keys (LruMap_set m k v)) = insert k (set (LruMap_keys m) - {last (LruMap_keys m)})"
    and "last (LruMap_keys m) \<in> set (LruMap_keys m)"
    and "\<forall>k' \<in> set (LruMap_keys m). k' \<noteq> last (LruMap_keys m) \<longrightarrow> age ops k' < age ops (last (LruMap_keys m))"
proof -
  let ?ks = "LruMap_keys m"
  have ne: "entries m \<noteq> []" using full pos by (auto simp: LruMap_size_def)
  then have kne: "?ks \<noteq> []" by (simp add: LruMap_keys_def)
  have "k \<notin> set ?ks" using miss by (simp add: LruMap_has_def LruMap_keys_def map_of_eq_None_iff)
  then have "filter (\<lambda>e. fst e \<noteq> k) (entries m) = entries m"
    by (auto simp: LruMap_keys_def filter_id_conv)
  then have t: "touch k v (entries m) = (k, v) # entries m" by (simp add: touch_def)
  have e: "entries (LruMap_set m k v) = (k, v) # butlast (entries m)"
    using full ne unfolding LruMap_set_def Let_def t by (simp add: LruMap_size_def)
  show "LruMap_size (LruMap_set m k v) = maxSize m"
    using full pos unfolding LruMap_size_def e by simp
  show k: "LruMap_keys (LruMap_set m k v) = k # butlast ?ks"
    unfolding LruMap_keys_def e by (simp add: map_butlast)
  have d: "distinct ?ks" using r by (simp add: recency_def)
  have split: "?ks = butlast ?ks @ [last ?ks]" using kne by simp
  have "distinct (butlast ?ks @ [last ?ks])" using d split by simp
  then have nl: "last ?ks \<notin> set (butlast ?ks)" by simp
  have "set ?ks = insert (last ?ks) (set (butlast ?ks))"
    using split by (metis Un_insert_right append_Nil2 list.simps(15) set_append)
  with nl have b: "set (butlast ?ks) = set ?ks - {last ?ks}" by auto
  show "set (LruMap_keys (LruMap_set m k v)) = insert k (set ?ks - {last ?ks})"
    unfolding k using b by simp
  show "last ?ks \<in> set ?ks" using kne by simp
  have "sorted_wrt (\<lambda>a b. age ops a < age ops b) (butlast ?ks @ [last ?ks])"
    using r split by (simp add: recency_def)
  then have "\<forall>x \<in> set (butlast ?ks). age ops x < age ops (last ?ks)"
    by (simp add: sorted_wrt_append)
  then show "\<forall>k' \<in> set ?ks. k' \<noteq> last ?ks \<longrightarrow> age ops k' < age ops (last ?ks)"
    using b by auto
qed

lemma entries_fill:
  "n \<le> N \<Longrightarrow>
     entries (foldl apply_access (LruMap_new N) (fill n))
       = map (\<lambda>i. (replicate (Suc i) CHR ''a'', True)) (rev [0..<n])"
proof (induction n)
  case 0
  then show ?case by (simp add: fill_def LruMap_new_def)
next
  case (Suc n)
  let ?m = "foldl apply_access (LruMap_new N) (fill n)"
  have f: "fill (Suc n) = fill n @ [Put (replicate (Suc n) CHR ''a'') True]"
    by (simp add: fill_def)
  have e: "entries ?m = map (\<lambda>i. (replicate (Suc i) CHR ''a'', True)) (rev [0..<n])"
    using Suc by simp
  have "filter (\<lambda>e. fst e \<noteq> replicate (Suc n) CHR ''a'') (entries ?m) = entries ?m"
    unfolding e filter_id_conv
  proof
    fix x assume "x \<in> set (map (\<lambda>i. (replicate (Suc i) CHR ''a'', True)) (rev [0..<n]))"
    then obtain i where "i < n" "x = (replicate (Suc i) CHR ''a'', True)" by auto
    then have "length (fst x) \<noteq> length (replicate (Suc n) CHR ''a'')" by simp
    then show "fst x \<noteq> replicate (Suc n) CHR ''a''" by metis
  qed
  then have t: "touch (replicate (Suc n) CHR ''a'') True (entries ?m)
      = (replicate (Suc n) CHR ''a'', True) # entries ?m"
    by (simp add: touch_def)
  have "maxSize ?m = N" by (simp add: LruMap_new_def)
  with Suc.prems show ?case
    unfolding f foldl_append foldl_Cons foldl_Nil apply_access.simps LruMap_set_def Let_def t
    by (simp add: e)
qed


lemma fill_full:
  "LruMap_keys (foldl apply_access IS_THIRDWEB_URL_CACHE (fill 4096))
     = map (\<lambda>i. replicate (Suc i) CHR ''a'') (rev [0..<4096])"
  unfolding IS_THIRDWEB_URL_CACHE_def LruMap_keys_def
  by (simp add: entries_fill comp_def del: replicate.simps)

text \<open>
  Claim C7. Whatever accesses have been made to the cache the module creates, it holds
  at most 4096 entries; every cache that classifications leave is reached by such
  accesses, so it holds at most 4096 entries as well. When the cache holds 4096
  entries and a key that is not in it is set, the cache holds 4096 entries
  afterwards: the new key is in it and exactly one of the former keys is gone, the one
  whose last use is older than the last use of every other key.
\<close>

theorem LruMap_capacity_lru:
  "LruMap_size (foldl apply_access IS_THIRDWEB_URL_CACHE ops) \<le> 4096
   \<and> (\<exists>ops'. cache_after env urls = foldl apply_access IS_THIRDWEB_URL_CACHE ops')
   \<and> LruMap_size (cache_after env urls) \<le> 4096
   \<and> (LruMap_size (foldl apply_access IS_THIRDWEB_URL_CACHE ops) = 4096
        \<and> \<not> LruMap_has (foldl apply_access IS_THIRDWEB_URL_CACHE ops) k \<longrightarrow>
       (let m = foldl apply_access IS_THIRDWEB_URL_CACHE ops;
            lru = last (LruMap_keys m);
            m' = LruMap_set m k v
        in LruMap_size m' = 4096
           \<and> LruMap_keys m' = k # butlast (LruMap_keys m)
           \<and> set (LruMap_keys m') = insert k (set (LruMap_keys m) - {lru})
           \<and> lru \<in> set (LruMap_keys m) \<and> distinct (LruMap_keys m)
           \<and> (\<forall>k' \<in> set (LruMap_keys m). k' \<noteq> lru \<longrightarrow> age ops k' < age ops lru)))"
proof -
  let ?m = "foldl apply_access IS_THIRDWEB_URL_CACHE ops"
  have r: "recency ops ?m" unfolding IS_THIRDWEB_URL_CACHE_def by (rule recency_foldl)
  have mx: "maxSize ?m = 4096" by (simp add: IS_THIRDWEB_URL_CACHE_def LruMap_new_def)
  have 1: "LruMap_size ?m \<le> 4096"
    unfolding IS_THIRDWEB_URL_CACHE_def by (rule size_foldl)
  have 2: "\<exists>ops'. cache_after env urls = foldl apply_access IS_THIRDWEB_URL_CACHE ops'"
    by (rule cache_after_accesses)
  then obtain ops' where "cache_after env urls = foldl apply_access IS_THIRDWEB_URL_CACHE ops'" ..
  then have 3: "LruMap_size (cache_after env urls) \<le> 4096"
    using size_foldl [of 4096 ops'] by (simp add: IS_THIRDWEB_URL_CACHE_def)
  have 4: "LruMap_size ?m = 4096 \<and> \<not> LruMap_has ?m k \<longrightarrow>
       (let m = ?m; lru = last (LruMap_keys m); m' = LruMap_set m k v
        in LruMap_size m' = 4096
           \<and> LruMap_keys m' = k # butlast (LruMap_keys m)
           \<and> set (LruMap_keys m') = insert k (set (LruMap_keys m) - {lru})
           \<and> lru \<in> set (LruMap_keys m) \<and> distinct (LruMap_keys m)
           \<and> (\<forall>k' \<in> set (LruMap_keys m). k' \<noteq> lru \<longrightarrow> age ops k' < age ops lru))"
  proof (intro impI, elim conjE)
    assume "LruMap_size ?m = 4096" and miss: "\<not> LruMap_has ?m k"
    then have full: "LruMap_size ?m = maxSize ?m" and pos: "0 < maxSize ?m" using mx by simp_all
    note e = evict_lru [OF r full pos miss]
    have d: "distinct (LruMap_keys ?m)" using r by (simp add: recency_def)
    show "let m = ?m; lru = last (LruMap_keys m); m' = LruMap_set m k v
        in LruMap_size m' = 4096
           \<and> LruMap_keys m' = k # butlast (LruMap_keys m)
           \<and> set (LruMap_keys m') = insert k (set (LruMap_keys m) - {lru})
           \<and> lru \<in> set (LruMap_keys m) \<and> distinct (LruMap_keys m)
           \<and> (\<forall>k' \<in> set (LruMap_keys m). k' \<noteq> lru \<longrightarrow> age ops k' < age ops lru)"
      unfolding Let_def
      by (rule conjI [OF e(1) [unfolded mx] conjI [OF e(2) conjI [OF e(3) conjI [OF e(4)
            conjI [OF d e(5)]]]]])
  qed
  show ?thesis by (rule conjI [OF 1 conjI [OF 2 conjI [OF 3 4]]])
qed

theorem LruMap_capacity_lru_witness:
  "LruMap_size (foldl apply_access IS_THIRDWEB_URL_CACHE (fill 4096)) = 4096
   \<and> \<not> LruMap_has (foldl apply_access IS_THIRDWEB_URL_CACHE (fill 4096)) ''b''
   \<and> last (LruMap_keys (foldl apply_access IS_THIRDWEB_URL_CACHE (fill 4096))) = ''a''
   \<and> LruMap_size (LruMap_set (foldl apply_access IS_THIRDWEB_URL_CACHE (fill 4096)) ''b'' False) = 4096
   \<and> ''a'' \<notin> set (LruMap_keys (LruMap_set (foldl apply_access IS_THIRDWEB_URL_CACHE (fill 4096)) ''b'' False))"
proof -
  let ?m = "foldl apply_access IS_THIRDWEB_URL_CACHE (fill 4096)"
  have s: "LruMap_size ?m = 4096"
    using arg_cong [OF fill_full, of length] by (simp add: LruMap_size_def LruMap_keys_def)
  have "''b'' \<notin> set (LruMap_keys ?m)" unfolding fill_full by auto
  then have h: "\<not> LruMap_has ?m ''b''"
    by (simp add: LruMap_has_def LruMap_keys_def map_of_eq_None_iff)
  have l: "last (LruMap_keys ?m) = ''a''"
    unfolding fill_full by (simp add: last_map last_rev del: replicate.simps upt_Suc) simp
  from LruMap_capacity_lru [where ops = "fill 4096" and k = "''b''" and v = False] s h
  have "LruMap_size (LruMap_set ?m ''b'' False) = 4096
      \<and> set (LruMap_keys (LruMap_set ?m ''b'' False))
          = insert ''b'' (set (LruMap_keys ?m) - {last (LruMap_keys ?m)})"
    unfolding Let_def by blast
  with s h l show ?thesis by auto
qed

end
